theory Spec2Isabelle
  imports Main "HOL-Library.Word" "HOL-Library.Multiset"
begin

section \<open>The staleness check of the shapefile\<close>

text \<open>
  \<^verbatim>\<open>is_file_older_than_two_weeks\<close> reads two things from its environment: the file
  system (does the path exist, and what is its modification time) and the clock. Both are
  arguments of the model. A \<open>datetime\<close> is the naive local datetime Python compares,
  counted in microseconds since \<^verbatim>\<open>datetime.min\<close>; the file system maps a path that
  exists to \<^verbatim>\<open>datetime.fromtimestamp(os.path.getmtime(path))\<close>. Subtracting a
  \<^verbatim>\<open>timedelta\<close> raises \<^verbatim>\<open>OverflowError\<close> when the result would lie before
  \<^verbatim>\<open>datetime.min\<close>.
\<close>

type_synonym datetime = int

type_synonym filesystem = "string \<rightharpoonup> datetime"

datatype py_error = OverflowError

definition weeks :: "int \<Rightarrow> int" where
  "weeks n = n * 7 * 24 * 3600 * 1000000"

definition datetime_sub :: "datetime \<Rightarrow> int \<Rightarrow> py_error + datetime" where
  "datetime_sub d delta = (if d - delta < 0 then Inl OverflowError else Inr (d - delta))"

definition is_file_older_than_two_weeks :: "filesystem \<Rightarrow> datetime \<Rightarrow> string \<Rightarrow> py_error + bool" where
  "is_file_older_than_two_weeks fs now filepath =
     (case fs filepath of
        None \<Rightarrow> Inr True
      | Some file_time \<Rightarrow>
          (case datetime_sub now (weeks 2) of
             Inl e \<Rightarrow> Inl e
           | Inr two_weeks_ago \<Rightarrow> Inr (file_time < two_weeks_ago)))"

text \<open>The branch of \<^verbatim>\<open>main\<close> that the check decides.\<close>

datatype refresh = DownloadFresh | UseExisting

definition shapefile_path :: string where
  "shapefile_path = ''borehole/borehole.shp''"

definition main_refresh :: "filesystem \<Rightarrow> datetime \<Rightarrow> py_error + refresh" where
  "main_refresh fs now =
     (case is_file_older_than_two_weeks fs now shapefile_path of
        Inl e \<Rightarrow> Inl e
      | Inr older \<Rightarrow> Inr (if older then DownloadFresh else UseExisting))"

section \<open>The database of the processing script\<close>

text \<open>
  The script drives an in-memory DuckDB database through SQL strings. The model starts at
  the normalised point relation (the table \<^verbatim>\<open>boreholes\<close> once \<^verbatim>\<open>lon\<close> and
  \<^verbatim>\<open>lat\<close> are filled in) and covers the two loops over \<^verbatim>\<open>scales\<close>. A
  \<^verbatim>\<open>DOUBLE\<close> is its 64-bit pattern and a \<^verbatim>\<open>BIGINT\<close> a 64-bit word; \<open>None\<close> is
  SQL's \<^verbatim>\<open>NULL\<close>. The columns of the source data that the loops neither read nor write
  are left out.
\<close>

type_synonym double = "64 word"

type_synonym cell_id = "64 word"

record point =
  lon :: "double option"
  lat :: "double option"

record borehole_row = point +
  h3_scale :: "nat \<Rightarrow> cell_id option"

text \<open>
  \<open>h3_cols\<close> is the schema: the indices \<open>i\<close> for which the column
  \<^verbatim>\<open>h3_scale_i\<close> exists, in the order of their creation.
\<close>

record boreholes_table =
  h3_cols :: "nat list"
  rows :: "borehole_row list"

record agg_row =
  cell :: "cell_id option"
  wkt :: "string option"
  count_col :: nat

text \<open>
  The database holds the table \<^verbatim>\<open>boreholes\<close> and the tables
  \<^verbatim>\<open>boreholes_h3_scale_j\<close>; next to it are the files
  \<^verbatim>\<open>./public/data/h3_scale_j.json\<close>, each an array of records.
\<close>

record db =
  boreholes :: boreholes_table
  scale_tables :: "nat \<rightharpoonup> agg_row list"
  json_files :: "nat \<rightharpoonup> agg_row list"

datatype sql_error = ColumnExists nat | ColumnMissing nat | TableExists nat | TableMissing nat

text \<open>
  What the script takes from outside the repository: the two functions of the H3 extension,
  and the order in which the engine emits the groups of a \<^verbatim>\<open>GROUP BY\<close>, which SQL
  leaves open.
\<close>

record engine =
  h3_latlng_to_cell :: "double \<Rightarrow> double \<Rightarrow> nat \<Rightarrow> cell_id option"
  h3_cell_to_boundary_wkt :: "cell_id \<Rightarrow> string option"
  row_order :: "agg_row list \<Rightarrow> agg_row list"

definition reorders_only :: "engine \<Rightarrow> bool" where
  "reorders_only e = (\<forall>xs. mset (row_order e xs) = mset xs)"

text \<open>A scalar SQL function applied to \<^verbatim>\<open>NULL\<close> is \<^verbatim>\<open>NULL\<close>.\<close>

definition sql_latlng_to_cell :: "engine \<Rightarrow> double option \<Rightarrow> double option \<Rightarrow> nat \<Rightarrow> cell_id option" where
  "sql_latlng_to_cell e la lo i =
     (case la of
        None \<Rightarrow> None
      | Some a \<Rightarrow> (case lo of None \<Rightarrow> None | Some b \<Rightarrow> h3_latlng_to_cell e a b i))"

definition sql_cell_to_boundary_wkt :: "engine \<Rightarrow> cell_id option \<Rightarrow> string option" where
  "sql_cell_to_boundary_wkt e c = (case c of None \<Rightarrow> None | Some k \<Rightarrow> h3_cell_to_boundary_wkt e k)"

text \<open>The value of \<^verbatim>\<open>h3_latlng_to_cell(lat, lon, i)\<close> on a row.\<close>

definition cell_of :: "engine \<Rightarrow> nat \<Rightarrow> 'a point_scheme \<Rightarrow> cell_id option" where
  "cell_of e i p = sql_latlng_to_cell e (lat p) (lon p) i"

subsection \<open>The statements\<close>

text \<open>\<^verbatim>\<open>ALTER TABLE boreholes ADD COLUMN h3_scale_i BIGINT\<close>: the new column is \<^verbatim>\<open>NULL\<close> in every row.\<close>

definition add_h3_column :: "nat \<Rightarrow> db \<Rightarrow> sql_error + db" where
  "add_h3_column i s =
     (let t = boreholes s in
      if i \<in> set (h3_cols t) then Inl (ColumnExists i)
      else Inr (s\<lparr>boreholes :=
                   t\<lparr>h3_cols := h3_cols t @ [i],
                     rows := map (\<lambda>r. r\<lparr>h3_scale := (h3_scale r)(i := None)\<rparr>) (rows t)\<rparr>\<rparr>))"

text \<open>\<^verbatim>\<open>UPDATE boreholes SET h3_scale_i = h3_latlng_to_cell(lat, lon, i)\<close>.\<close>

definition update_h3_column :: "engine \<Rightarrow> nat \<Rightarrow> db \<Rightarrow> sql_error + db" where
  "update_h3_column e i s =
     (let t = boreholes s in
      if i \<notin> set (h3_cols t) then Inl (ColumnMissing i)
      else Inr (s\<lparr>boreholes :=
                   t\<lparr>rows := map (\<lambda>r. r\<lparr>h3_scale := (h3_scale r)(i := cell_of e i r)\<rparr>) (rows t)\<rparr>\<rparr>))"

text \<open>
  \<^verbatim>\<open>SELECT c as cell, h3_cell_to_boundary_wkt(c) as wkt, COUNT(c) as count ... GROUP BY c\<close>
  over the values of column \<open>c\<close>: one group for each distinct value, the \<^verbatim>\<open>NULL\<close>s
  forming one group; \<^verbatim>\<open>COUNT(c)\<close> counts the rows of the group in which \<open>c\<close> is not
  \<^verbatim>\<open>NULL\<close>.
\<close>

definition count_non_null :: "'a option list \<Rightarrow> nat" where
  "count_non_null vs = length (filter (\<lambda>v. v \<noteq> None) vs)"

definition group_row :: "engine \<Rightarrow> cell_id option list \<Rightarrow> cell_id option \<Rightarrow> agg_row" where
  "group_row e col k =
     \<lparr>cell = k, wkt = sql_cell_to_boundary_wkt e k,
      count_col = count_non_null (filter (\<lambda>v. v = k) col)\<rparr>"

definition group_by_cell :: "engine \<Rightarrow> cell_id option list \<Rightarrow> agg_row list" where
  "group_by_cell e col = row_order e (map (group_row e col) (remdups col))"

text \<open>\<^verbatim>\<open>CREATE TABLE boreholes_h3_scale_j AS SELECT ... FROM boreholes GROUP BY h3_scale_j\<close>.\<close>

definition create_scale_table :: "engine \<Rightarrow> nat \<Rightarrow> db \<Rightarrow> sql_error + db" where
  "create_scale_table e j s =
     (let t = boreholes s in
      if j \<notin> set (h3_cols t) then Inl (ColumnMissing j)
      else if scale_tables s j \<noteq> None then Inl (TableExists j)
      else Inr (s\<lparr>scale_tables :=
                   (scale_tables s)(j \<mapsto> group_by_cell e (map (\<lambda>r. h3_scale r j) (rows t)))\<rparr>))"

text \<open>\<^verbatim>\<open>COPY boreholes_h3_scale_j TO './public/data/h3_scale_j.json' (ARRAY)\<close>: the file is overwritten.\<close>

definition copy_scale_table :: "nat \<Rightarrow> db \<Rightarrow> sql_error + db" where
  "copy_scale_table j s =
     (case scale_tables s j of
        None \<Rightarrow> Inl (TableMissing j)
      | Some t \<Rightarrow> Inr (s\<lparr>json_files := (json_files s)(j \<mapsto> t)\<rparr>))"

text \<open>\<^verbatim>\<open>DROP TABLE BOREHOLES_H3_SCALE_j\<close> (SQL identifiers are case-insensitive).\<close>

definition drop_scale_table :: "nat \<Rightarrow> db \<Rightarrow> sql_error + db" where
  "drop_scale_table j s =
     (case scale_tables s j of
        None \<Rightarrow> Inl (TableMissing j)
      | Some t \<Rightarrow> Inr (s\<lparr>scale_tables := (scale_tables s)(j := None)\<rparr>))"

subsection \<open>The two loops\<close>

datatype stmt = AddColumn nat | UpdateColumn nat | CreateTable nat | CopyTable nat | DropTable nat

fun exec :: "engine \<Rightarrow> stmt \<Rightarrow> db \<Rightarrow> sql_error + db" where
  "exec e (AddColumn i) s = add_h3_column i s"
| "exec e (UpdateColumn i) s = update_h3_column e i s"
| "exec e (CreateTable j) s = create_scale_table e j s"
| "exec e (CopyTable j) s = copy_scale_table j s"
| "exec e (DropTable j) s = drop_scale_table j s"

text \<open>A failing statement raises in \<^verbatim>\<open>db.sql\<close> and ends the script.\<close>

fun run :: "engine \<Rightarrow> stmt list \<Rightarrow> db \<Rightarrow> sql_error + db" where
  "run e [] s = Inr s"
| "run e (c # cs) s = (case exec e c s of Inl err \<Rightarrow> Inl err | Inr s' \<Rightarrow> run e cs s')"

text \<open>The states the database passes through: one after each statement that succeeds.\<close>

fun trace :: "engine \<Rightarrow> stmt list \<Rightarrow> db \<Rightarrow> db list" where
  "trace e [] s = []"
| "trace e (c # cs) s = (case exec e c s of Inl err \<Rightarrow> [] | Inr s' \<Rightarrow> s' # trace e cs s')"

definition scales :: "nat list" where
  "scales = [0, 1, 2, 3, 4, 5, 6, 7, 8, 9, 10, 11, 12, 13, 14, 15]"

definition tagging_stmts :: "nat list \<Rightarrow> stmt list" where
  "tagging_stmts is = concat (map (\<lambda>i. [AddColumn i, UpdateColumn i]) is)"

definition aggregation_stmts :: "nat list \<Rightarrow> stmt list" where
  "aggregation_stmts js = concat (map (\<lambda>j. [CreateTable j, CopyTable j, DropTable j]) js)"

text \<open>
  The database is fresh (\<^verbatim>\<open>duckdb.connect()\<close>), so no aggregate table exists at the
  start; the output directory may hold files of an earlier run.
\<close>

definition untagged :: "point \<Rightarrow> borehole_row" where
  "untagged p = \<lparr>lon = lon p, lat = lat p, h3_scale = (\<lambda>i. None)\<rparr>"

definition initial_db :: "point list \<Rightarrow> (nat \<rightharpoonup> agg_row list) \<Rightarrow> db" where
  "initial_db pts files0 =
     \<lparr>boreholes = \<lparr>h3_cols = [], rows = map untagged pts\<rparr>,
      scale_tables = Map.empty, json_files = files0\<rparr>"

definition assign_cells :: "engine \<Rightarrow> db \<Rightarrow> sql_error + db" where
  "assign_cells e s = run e (tagging_stmts scales) s"

definition aggregate_and_export :: "engine \<Rightarrow> db \<Rightarrow> sql_error + db" where
  "aggregate_and_export e s = run e (aggregation_stmts scales) s"

definition pipeline :: "engine \<Rightarrow> point list \<Rightarrow> (nat \<rightharpoonup> agg_row list) \<Rightarrow> sql_error + db" where
  "pipeline e pts files0 =
     (case assign_cells e (initial_db pts files0) of
        Inl err \<Rightarrow> Inl err
      | Inr s \<Rightarrow> aggregate_and_export e s)"

subsection \<open>Closed forms of the two loops\<close>

text \<open>
  The states that the proofs below show the loops to reach: every row tagged with its cell
  at each of the sixteen resolutions, and every file holding the grouped column.
\<close>

definition tag_row :: "engine \<Rightarrow> nat list \<Rightarrow> borehole_row \<Rightarrow> borehole_row" where
  "tag_row e is r = r\<lparr>h3_scale := (\<lambda>k. if k \<in> set is then cell_of e k r else h3_scale r k)\<rparr>"

definition tagged_row :: "engine \<Rightarrow> point \<Rightarrow> borehole_row" where
  "tagged_row e p =
     \<lparr>lon = lon p, lat = lat p,
      h3_scale = (\<lambda>r. if r \<in> set scales then sql_latlng_to_cell e (lat p) (lon p) r else None)\<rparr>"

definition tagged_db :: "engine \<Rightarrow> point list \<Rightarrow> (nat \<rightharpoonup> agg_row list) \<Rightarrow> db" where
  "tagged_db e pts files0 =
     \<lparr>boreholes = \<lparr>h3_cols = scales, rows = map (tagged_row e) pts\<rparr>,
      scale_tables = Map.empty, json_files = files0\<rparr>"

definition scale_table_of :: "engine \<Rightarrow> db \<Rightarrow> nat \<Rightarrow> agg_row list" where
  "scale_table_of e s j = group_by_cell e (map (\<lambda>r. h3_scale r j) (rows (boreholes s)))"

definition exported_db :: "engine \<Rightarrow> point list \<Rightarrow> (nat \<rightharpoonup> agg_row list) \<Rightarrow> db" where
  "exported_db e pts files0 =
     (tagged_db e pts files0)
       \<lparr>json_files := (\<lambda>k. if k \<in> set scales
                             then Some (scale_table_of e (tagged_db e pts files0) k)
                             else files0 k)\<rparr>"

subsection \<open>An engine and a point set for worked examples\<close>

text \<open>
  A toy indexing function that keeps the leading bits of the latitude, one bit more for
  each finer resolution; a constant boundary; groups emitted in reverse.
\<close>

definition example_h3 :: "double \<Rightarrow> double \<Rightarrow> nat \<Rightarrow> cell_id option" where
  "example_h3 a b i = Some (drop_bit (15 - i) a)"

definition example_wkt :: "cell_id \<Rightarrow> string option" where
  "example_wkt c = Some ''POLYGON EMPTY''"

definition example_engine :: engine where
  "example_engine =
     \<lparr>h3_latlng_to_cell = example_h3, h3_cell_to_boundary_wkt = example_wkt, row_order = rev\<rparr>"

definition example_points :: "point list" where
  "example_points =
     [\<lparr>lon = Some 7, lat = Some 2\<rparr>, \<lparr>lon = Some 7, lat = Some 3\<rparr>,
      \<lparr>lon = None, lat = None\<rparr>, \<lparr>lon = Some 7, lat = Some 2\<rparr>]"




section \<open>The tagging loop\<close>

lemma scales_upt: "scales = [0..<16]"
  by (simp add: scales_def upt_rec)

lemma in_scales: "r \<in> set scales \<longleftrightarrow> r \<le> 15"
  by (auto simp: scales_upt)

lemma cell_of_h3_scale_update [simp]: "cell_of e i (r\<lparr>h3_scale := f\<rparr>) = cell_of e i r"
  by (simp add: cell_of_def)

lemma add_then_update:
  assumes "i \<notin> set (h3_cols (boreholes s))"
  shows "run e (AddColumn i # UpdateColumn i # cs) s =
         run e cs (s\<lparr>boreholes := (boreholes s)\<lparr>h3_cols := h3_cols (boreholes s) @ [i],
                      rows := map (tag_row e [i]) (rows (boreholes s))\<rparr>\<rparr>)"
proof -
  have single: "tag_row e [i] = (\<lambda>r. r\<lparr>h3_scale := (h3_scale r)(i := cell_of e i r)\<rparr>)"
    by (auto simp: tag_row_def fun_eq_iff)
  show ?thesis
    using assms
    by (simp add: add_h3_column_def update_h3_column_def Let_def o_def single)
qed

lemma run_tagging:
  "distinct is \<Longrightarrow> set is \<inter> set (h3_cols (boreholes s)) = {} \<Longrightarrow>
   run e (tagging_stmts is) s =
     Inr (s\<lparr>boreholes := (boreholes s)\<lparr>h3_cols := h3_cols (boreholes s) @ is,
                           rows := map (tag_row e is) (rows (boreholes s))\<rparr>\<rparr>)"
proof (induction "is" arbitrary: s)
  case Nil
  then show ?case by (simp add: tagging_stmts_def tag_row_def)
next
  case (Cons i "is")
  let ?s1 = "s\<lparr>boreholes := (boreholes s)\<lparr>h3_cols := h3_cols (boreholes s) @ [i],
                      rows := map (tag_row e [i]) (rows (boreholes s))\<rparr>\<rparr>"
  have fresh: "i \<notin> set (h3_cols (boreholes s))" using Cons.prems by auto
  have "run e (tagging_stmts (i # is)) s = run e (tagging_stmts is) ?s1"
    using add_then_update [OF fresh] by (simp add: tagging_stmts_def)
  also have "\<dots> = Inr (?s1\<lparr>boreholes := (boreholes ?s1)\<lparr>h3_cols := h3_cols (boreholes ?s1) @ is,
                           rows := map (tag_row e is) (rows (boreholes ?s1))\<rparr>\<rparr>)"
    using Cons.prems by (intro Cons.IH) auto
  also have "\<dots> = Inr (s\<lparr>boreholes := (boreholes s)\<lparr>h3_cols := h3_cols (boreholes s) @ i # is,
                           rows := map (tag_row e (i # is)) (rows (boreholes s))\<rparr>\<rparr>)"
    by (simp add: o_def tag_row_def fun_eq_iff)
  finally show ?case .
qed

lemma tag_row_untagged: "tag_row e scales (untagged p) = tagged_row e p"
  by (simp add: tag_row_def untagged_def tagged_row_def cell_of_def fun_eq_iff)

lemma assign_cells_closed: "assign_cells e (initial_db pts files0) = Inr (tagged_db e pts files0)"
proof -
  have "distinct scales" by (simp add: scales_upt)
  then have "assign_cells e (initial_db pts files0) =
      Inr ((initial_db pts files0)\<lparr>boreholes := (boreholes (initial_db pts files0))
             \<lparr>h3_cols := h3_cols (boreholes (initial_db pts files0)) @ scales,
              rows := map (tag_row e scales) (rows (boreholes (initial_db pts files0)))\<rparr>\<rparr>)"
    unfolding assign_cells_def by (intro run_tagging) (simp_all add: initial_db_def)
  also have "\<dots> = Inr (tagged_db e pts files0)"
    by (simp add: initial_db_def tagged_db_def o_def tag_row_untagged)
  finally show ?thesis .
qed

text \<open>
  The loop cannot be run a second time in the same database: the columns exist. The script
  never does so, since every run starts from a fresh in-memory database.
\<close>

lemma assign_cells_again:
  "assign_cells e (tagged_db e pts files0) = Inl (ColumnExists 0)"
  by (simp add: assign_cells_def tagging_stmts_def scales_def add_h3_column_def tagged_db_def)

section \<open>The aggregation loop\<close>

lemma scale_table_of_files [simp]: "scale_table_of e (s\<lparr>json_files := f\<rparr>) j = scale_table_of e s j"
  by (simp add: scale_table_of_def)

lemma create_copy_drop:
  assumes "j \<in> set (h3_cols (boreholes s))" and "scale_tables s j = None"
  shows "run e (CreateTable j # CopyTable j # DropTable j # cs) s =
         run e cs (s\<lparr>json_files := (json_files s)(j \<mapsto> scale_table_of e s j)\<rparr>)"
  using assms
  by (simp add: create_scale_table_def copy_scale_table_def drop_scale_table_def Let_def
        scale_table_of_def fun_upd_idem)

lemma run_aggregation:
  "set js \<subseteq> set (h3_cols (boreholes s)) \<Longrightarrow> \<forall>j\<in>set js. scale_tables s j = None \<Longrightarrow>
   run e (aggregation_stmts js) s =
     Inr (s\<lparr>json_files := (\<lambda>k. if k \<in> set js then Some (scale_table_of e s k) else json_files s k)\<rparr>)"
proof (induction js arbitrary: s)
  case Nil
  then show ?case by (simp add: aggregation_stmts_def)
next
  case (Cons j js)
  let ?s1 = "s\<lparr>json_files := (json_files s)(j \<mapsto> scale_table_of e s j)\<rparr>"
  have "run e (aggregation_stmts (j # js)) s = run e (aggregation_stmts js) ?s1"
    using Cons.prems create_copy_drop [of j s e] by (simp add: aggregation_stmts_def)
  also have "\<dots> = Inr (?s1\<lparr>json_files :=
       (\<lambda>k. if k \<in> set js then Some (scale_table_of e ?s1 k) else json_files ?s1 k)\<rparr>)"
    using Cons.prems by (intro Cons.IH) auto
  also have "\<dots> = Inr (s\<lparr>json_files :=
       (\<lambda>k. if k \<in> set (j # js) then Some (scale_table_of e s k) else json_files s k)\<rparr>)"
    by (auto simp: fun_eq_iff)
  finally show ?case .
qed

lemma pipeline_closed: "pipeline e pts files0 = Inr (exported_db e pts files0)"
proof -
  have "aggregate_and_export e (tagged_db e pts files0) = Inr (exported_db e pts files0)"
    unfolding aggregate_and_export_def exported_db_def
    by (subst run_aggregation) (simp_all add: tagged_db_def cong: if_cong)
  then show ?thesis
    by (simp add: pipeline_def assign_cells_closed)
qed

lemma boreholes_exported_db [simp]:
  "boreholes (exported_db e pts files0) = \<lparr>h3_cols = scales, rows = map (tagged_row e) pts\<rparr>"
  by (simp add: exported_db_def tagged_db_def)

lemma scale_tables_exported_db [simp]: "scale_tables (exported_db e pts files0) = Map.empty"
  by (simp add: exported_db_def tagged_db_def)

lemma h3_scale_tagged_row: "r \<le> 15 \<Longrightarrow> h3_scale (tagged_row e p) r = cell_of e r p"
  by (simp add: tagged_row_def cell_of_def in_scales)

lemma json_files_exported_db:
  "r \<le> 15 \<Longrightarrow>
   json_files (exported_db e pts files0) r = Some (group_by_cell e (map (cell_of e r) pts))"
  by (simp add: exported_db_def tagged_db_def scale_table_of_def in_scales o_def
        h3_scale_tagged_row)

subsection \<open>The states in between\<close>

lemma trace_create_copy_drop:
  assumes "j \<in> set (h3_cols (boreholes s))" and "scale_tables s j = None"
  shows "trace e (CreateTable j # CopyTable j # DropTable j # cs) s =
         s\<lparr>scale_tables := (scale_tables s)(j \<mapsto> scale_table_of e s j)\<rparr>
       # s\<lparr>scale_tables := (scale_tables s)(j \<mapsto> scale_table_of e s j),
            json_files := (json_files s)(j \<mapsto> scale_table_of e s j)\<rparr>
       # s\<lparr>json_files := (json_files s)(j \<mapsto> scale_table_of e s j)\<rparr>
       # trace e cs (s\<lparr>json_files := (json_files s)(j \<mapsto> scale_table_of e s j)\<rparr>)"
  using assms
  by (simp add: create_scale_table_def copy_scale_table_def drop_scale_table_def Let_def
        scale_table_of_def fun_upd_idem)

lemma length_trace_aggregation:
  "set js \<subseteq> set (h3_cols (boreholes s)) \<Longrightarrow> scale_tables s = Map.empty \<Longrightarrow>
   length (trace e (aggregation_stmts js) s) = 3 * length js"
proof (induction js arbitrary: s)
  case Nil
  then show ?case by (simp add: aggregation_stmts_def)
next
  case (Cons j js)
  let ?s1 = "s\<lparr>json_files := (json_files s)(j \<mapsto> scale_table_of e s j)\<rparr>"
  have "length (trace e (aggregation_stmts js) ?s1) = 3 * length js"
    using Cons.prems by (intro Cons.IH) auto
  then show ?case
    using Cons.prems trace_create_copy_drop [of j s e "aggregation_stmts js"]
    by (simp add: aggregation_stmts_def)
qed

lemma trace_aggregation_nth:
  "set js \<subseteq> set (h3_cols (boreholes s)) \<Longrightarrow> scale_tables s = Map.empty \<Longrightarrow>
   n < 3 * length js \<Longrightarrow>
   boreholes (trace e (aggregation_stmts js) s ! n) = boreholes s
   \<and> dom (scale_tables (trace e (aggregation_stmts js) s ! n)) =
       (if n mod 3 = 2 then {} else {js ! (n div 3)})
   \<and> (n mod 3 \<noteq> 0 \<longrightarrow>
        json_files (trace e (aggregation_stmts js) s ! n) (js ! (n div 3)) =
          Some (scale_table_of e s (js ! (n div 3))))
   \<and> (n mod 3 \<noteq> 2 \<longrightarrow>
        scale_tables (trace e (aggregation_stmts js) s ! n) (js ! (n div 3)) =
          Some (scale_table_of e s (js ! (n div 3))))"
proof (induction js arbitrary: s n)
  case Nil
  then show ?case by simp
next
  case (Cons j js)
  let ?t = "scale_table_of e s j"
  let ?s1 = "s\<lparr>json_files := (json_files s)(j \<mapsto> ?t)\<rparr>"
  have tr: "trace e (aggregation_stmts (j # js)) s =
         s\<lparr>scale_tables := (scale_tables s)(j \<mapsto> ?t)\<rparr>
       # s\<lparr>scale_tables := (scale_tables s)(j \<mapsto> ?t), json_files := (json_files s)(j \<mapsto> ?t)\<rparr>
       # ?s1 # trace e (aggregation_stmts js) ?s1"
    using Cons.prems trace_create_copy_drop [of j s e "aggregation_stmts js"]
    by (simp add: aggregation_stmts_def)
  consider "n = 0" | "n = 1" | "n = 2" | "3 \<le> n" by linarith
  then show ?case
  proof cases
    case 1
    then show ?thesis using Cons.prems(2) by (auto simp: tr dom_def)
  next
    case 2
    then show ?thesis using Cons.prems(2) by (auto simp: tr dom_def)
  next
    case 3
    then show ?thesis using Cons.prems(2) by (auto simp: tr dom_def)
  next
    case 4
    define m where "m = n - 3"
    have n: "n = m + 3" using 4 by (simp add: m_def)
    have m: "m < 3 * length js" using Cons.prems(3) n by simp
    have nth: "trace e (aggregation_stmts (j # js)) s ! n = trace e (aggregation_stmts js) ?s1 ! m"
      by (simp add: tr n numeral_3_eq_3)
    have "n div 3 = Suc (m div 3)" by (simp add: n)
    then have idx: "n mod 3 = m mod 3" "(j # js) ! (n div 3) = js ! (m div 3)"
      by (simp_all add: n)
    have "set js \<subseteq> set (h3_cols (boreholes ?s1))" "scale_tables ?s1 = Map.empty"
      using Cons.prems by auto
    from Cons.IH [OF this m] show ?thesis
      by (simp add: nth idx)
  qed
qed

lemma run_last_trace: "run e cs s = Inr s' \<Longrightarrow> last (s # trace e cs s) = s'"
proof (induction cs arbitrary: s)
  case Nil
  then show ?case by simp
next
  case (Cons c cs)
  then obtain s1 where s1: "exec e c s = Inr s1" and rest: "run e cs s1 = Inr s'"
    by (auto split: sum.splits)
  have "last (s1 # trace e cs s1) = s'"
    using rest by (rule Cons.IH)
  then show ?case
    by (simp add: s1)
qed

lemma nth_scales: "k < 16 \<Longrightarrow> scales ! k = k"
  by (simp add: scales_upt)

section \<open>Grouping and counting\<close>

lemma filter_group:
  "filter P (filter (\<lambda>v. v = k) xs) = (if P k then filter (\<lambda>v. v = k) xs else [])"
  by (induction xs) auto

lemma length_filter_eq_count_list: "length (filter (\<lambda>v. v = k) xs) = count_list xs k"
  by (induction xs) auto

lemma length_group:
  "length (filter P (filter (\<lambda>v. v = k) xs)) = (if P k then count_list xs k else 0)"
  by (simp only: filter_group length_filter_eq_count_list if_distrib [of length] list.size)

lemma sum_group_sizes:
  "sum_list (map (\<lambda>k. length (filter P (filter (\<lambda>v. v = k) xs))) (remdups xs)) = length (filter P xs)"
proof -
  have "sum_list (map (\<lambda>k. length (filter P (filter (\<lambda>v. v = k) xs))) (remdups xs))
      = (\<Sum>k\<in>set xs. length (filter P (filter (\<lambda>v. v = k) xs)))"
    by (simp add: sum_list_distinct_conv_sum_set)
  also have "\<dots> = (\<Sum>k\<in>set xs. count (mset (filter P xs)) k)"
  proof (rule sum.cong)
    fix k
    show "length (filter P (filter (\<lambda>v. v = k) xs)) = count (mset (filter P xs)) k"
      by (simp only: length_group) (simp add: count_mset)
  qed simp
  also have "\<dots> = (\<Sum>k\<in>set_mset (mset (filter P xs)). count (mset (filter P xs)) k)"
    by (rule sum.mono_neutral_right) (auto simp: count_eq_zero_iff)
  also have "\<dots> = size (mset (filter P xs))"
    by (simp add: size_multiset_overloaded_eq)
  finally show ?thesis unfolding size_mset .
qed

lemma mset_group_by_cell:
  "reorders_only e \<Longrightarrow> mset (group_by_cell e col) = mset (map (group_row e col) (remdups col))"
  by (simp add: reorders_only_def group_by_cell_def)

lemma set_group_by_cell:
  assumes "reorders_only e"
  shows "set (group_by_cell e col) = group_row e col ` set col"
  using mset_eq_setD [OF mset_group_by_cell [OF assms, of col]] by simp

lemma cells_group_by_cell:
  assumes "reorders_only e"
  shows "mset (map cell (group_by_cell e col)) = mset (remdups col)"
proof -
  have "mset (map cell (group_by_cell e col)) = image_mset cell (mset (group_by_cell e col))"
    by simp
  also have "\<dots> = mset (map cell (map (group_row e col) (remdups col)))"
    by (simp only: mset_group_by_cell [OF assms] mset_map)
  also have "map cell (map (group_row e col) (remdups col)) = remdups col"
    by (simp add: o_def group_row_def)
  finally show ?thesis .
qed

lemma distinct_cells_group_by_cell:
  assumes "reorders_only e"
  shows "distinct (map cell (group_by_cell e col))"
  using mset_eq_imp_distinct_iff [OF cells_group_by_cell [OF assms, of col]] by simp

lemma set_cells_group_by_cell:
  assumes "reorders_only e"
  shows "set (map cell (group_by_cell e col)) = set col"
  using mset_eq_setD [OF cells_group_by_cell [OF assms, of col]] by simp

lemma sum_counts_group_by_cell:
  assumes "reorders_only e"
  shows "sum_list (map count_col (group_by_cell e col)) = count_non_null col"
proof -
  have "sum_list (map count_col (group_by_cell e col))
      = sum_mset (image_mset count_col (mset (group_by_cell e col)))"
    by (simp only: sum_mset_sum_list [symmetric] mset_map)
  also have "\<dots> = sum_list (map count_col (map (group_row e col) (remdups col)))"
    by (simp only: mset_group_by_cell [OF assms] sum_mset_sum_list [symmetric] mset_map)
  also have "\<dots> = sum_list (map (\<lambda>k. length (filter (\<lambda>v. v \<noteq> None) (filter (\<lambda>v. v = k) col))) (remdups col))"
    by (simp add: o_def group_row_def count_non_null_def)
  also have "\<dots> = count_non_null col"
    by (simp only: sum_group_sizes count_non_null_def)
  finally show ?thesis .
qed

lemma count_non_null_map:
  "count_non_null (map f xs) = length (filter (\<lambda>x. f x \<noteq> None) xs)"
  by (simp add: count_non_null_def filter_map o_def)

lemma group_by_cell_Nil: "reorders_only e \<Longrightarrow> group_by_cell e [] = []"
  using mset_group_by_cell [of e "[]"] by simp


lemma cell_group_row: "cell (group_row e col k) = k"
  by (simp add: group_row_def)

lemma wkt_group_row: "wkt (group_row e col k) = sql_cell_to_boundary_wkt e k"
  by (simp add: group_row_def)

lemma count_col_group_row:
  "count_col (group_row e col k) = (if k = None then 0 else count_list col k)"
proof -
  have "count_col (group_row e col k) = length (filter (\<lambda>v. v \<noteq> None) (filter (\<lambda>v. v = k) col))"
    by (simp add: group_row_def count_non_null_def)
  also have "\<dots> = (if k \<noteq> None then count_list col k else 0)"
    by (rule length_group)
  finally show ?thesis by simp
qed

lemma count_list_map: "count_list (map f xs) k = length (filter (\<lambda>x. f x = k) xs)"
  by (induction xs) auto

lemma group_row_in_table:
  assumes "reorders_only e" and "a \<in> set (group_by_cell e (map f xs))"
  shows "wkt a = sql_cell_to_boundary_wkt e (cell a)"
    and "count_col a = (if cell a = None then 0 else length (filter (\<lambda>x. f x = cell a) xs))"
    and "cell a \<noteq> None \<Longrightarrow> 1 \<le> count_col a"
proof -
  from assms obtain k where k: "k \<in> set (map f xs)" and a: "a = group_row e (map f xs) k"
    unfolding set_group_by_cell [OF assms(1)] by blast
  show "wkt a = sql_cell_to_boundary_wkt e (cell a)"
    unfolding a by (simp only: wkt_group_row cell_group_row)
  show "count_col a = (if cell a = None then 0 else length (filter (\<lambda>x. f x = cell a) xs))"
    unfolding a by (simp only: count_col_group_row cell_group_row count_list_map)
  have "count_list (map f xs) k \<noteq> 0"
    using k by (simp only: count_list_0_iff not_not)
  then have "0 < count_list (map f xs) k"
    by simp
  then show "1 \<le> count_col a" if "cell a \<noteq> None"
    using that unfolding a by (simp add: count_col_group_row cell_group_row)
qed

lemma null_row_in_table:
  assumes "reorders_only e"
  shows "(\<lparr>cell = None, wkt = None, count_col = 0\<rparr> \<in> set (group_by_cell e col)) = (None \<in> set col)"
    and "a \<in> set (group_by_cell e col) \<Longrightarrow> cell a = None \<Longrightarrow> a = \<lparr>cell = None, wkt = None, count_col = 0\<rparr>"
proof -
  have null: "group_row e col None = \<lparr>cell = None, wkt = None, count_col = 0\<rparr>"
    using count_col_group_row [of e col None]
    by (simp add: group_row_def sql_cell_to_boundary_wkt_def)
  show "(\<lparr>cell = None, wkt = None, count_col = 0\<rparr> \<in> set (group_by_cell e col)) = (None \<in> set col)"
  proof
    assume "\<lparr>cell = None, wkt = None, count_col = 0\<rparr> \<in> set (group_by_cell e col)"
    then obtain k where k: "k \<in> set col"
      and eq: "\<lparr>cell = None, wkt = None, count_col = 0\<rparr> = group_row e col k"
      unfolding set_group_by_cell [OF assms] by blast
    have "k = None"
      using arg_cong [OF eq, of cell] by (simp add: cell_group_row)
    with k show "None \<in> set col" by simp
  next
    assume "None \<in> set col"
    then have "group_row e col None \<in> group_row e col ` set col"
      by (rule imageI)
    then show "\<lparr>cell = None, wkt = None, count_col = 0\<rparr> \<in> set (group_by_cell e col)"
      by (simp only: set_group_by_cell [OF assms] null)
  qed
  show "a = \<lparr>cell = None, wkt = None, count_col = 0\<rparr>"
    if "a \<in> set (group_by_cell e col)" and "cell a = None"
  proof -
    from that(1) obtain k where a: "a = group_row e col k"
      unfolding set_group_by_cell [OF assms] by blast
    have "k = None"
      using that(2) by (simp add: a cell_group_row)
    then show ?thesis by (simp only: a null)
  qed
qed


section \<open>The worked example, evaluated\<close>

lemmas example_defs = cell_of_def sql_latlng_to_cell_def sql_cell_to_boundary_wkt_def
  example_engine_def example_h3_def example_wkt_def example_points_def group_by_cell_def
  group_row_def count_non_null_def

lemma reorders_only_example: "reorders_only example_engine"
  by (simp add: reorders_only_def example_engine_def)

lemma reorders_only_example_id: "reorders_only (example_engine\<lparr>row_order := id\<rparr>)"
  by (simp add: reorders_only_def)

lemma example_file_15:
  "json_files (exported_db example_engine example_points files0) 15 =
     Some [\<lparr>cell = Some 2, wkt = Some ''POLYGON EMPTY'', count_col = 2\<rparr>,
           \<lparr>cell = None, wkt = None, count_col = 0\<rparr>,
           \<lparr>cell = Some 3, wkt = Some ''POLYGON EMPTY'', count_col = 1\<rparr>]"
  by (simp add: json_files_exported_db) (simp add: example_defs)


lemma example_cells_15:
  "map (\<lambda>row. h3_scale row 15) (map (tagged_row example_engine) example_points) =
     [Some 2, Some 3, None, Some 2]"
  by (simp add: h3_scale_tagged_row example_defs)

lemma example_cells_14:
  "map (\<lambda>row. h3_scale row 14) (map (tagged_row example_engine) example_points) =
     [Some 1, Some 1, None, Some 1]"
  by (simp add: h3_scale_tagged_row example_defs)




section \<open>The staleness check: what it returns\<close>

text \<open>
  C10. \<^verbatim>\<open>is_file_older_than_two_weeks\<close> returns True for every path that does not
  exist, so that \<^verbatim>\<open>main\<close> downloads afresh when the shapefile is missing; for a path
  that exists it returns True exactly when the file's modification time is strictly
  earlier than the current time minus two weeks. (The subtraction is defined whenever the
  clock reads at least two weeks after \<^verbatim>\<open>datetime.min\<close>.)
\<close>

theorem is_file_older_than_two_weeks_spec:
  "(fs p = None \<longrightarrow> is_file_older_than_two_weeks fs now p = Inr True)
   \<and> (fs shapefile_path = None \<longrightarrow> main_refresh fs now = Inr DownloadFresh)
   \<and> (\<forall>m. fs p = Some m \<and> weeks 2 \<le> now \<longrightarrow>
          is_file_older_than_two_weeks fs now p = Inr (m < now - weeks 2))"
  by (simp add: is_file_older_than_two_weeks_def main_refresh_def datetime_sub_def)

theorem is_file_older_than_two_weeks_spec_witness:
  "is_file_older_than_two_weeks (Map.empty(''a.shp'' \<mapsto> 5)) (weeks 3) ''b.shp'' = Inr True
   \<and> main_refresh (Map.empty(''a.shp'' \<mapsto> 5)) (weeks 3) = Inr DownloadFresh
   \<and> is_file_older_than_two_weeks (Map.empty(''a.shp'' \<mapsto> 5)) (weeks 3) ''a.shp'' = Inr True
   \<and> is_file_older_than_two_weeks (Map.empty(''a.shp'' \<mapsto> weeks 1)) (weeks 3) ''a.shp'' = Inr False"
  using is_file_older_than_two_weeks_spec [of "Map.empty(''a.shp'' \<mapsto> 5)" "''b.shp''" "weeks 3"]
        is_file_older_than_two_weeks_spec [of "Map.empty(''a.shp'' \<mapsto> 5)" "''a.shp''" "weeks 3"]
        is_file_older_than_two_weeks_spec [of "Map.empty(''a.shp'' \<mapsto> weeks 1)" "''a.shp''" "weeks 3"]
  by (simp add: weeks_def shapefile_path_def)


section \<open>Cell assignment\<close>

text \<open>
  C3. Cell assignment is a pure function of its input: on the normalised relation the
  tagging loop succeeds and leaves a table whose schema has gained exactly the sixteen
  columns \<open>h3_scale_0\<close> to \<open>h3_scale_15\<close>, whose rows keep their \<open>lon\<close> and \<open>lat\<close>, and in
  which the value of column \<open>r\<close> on a row is the indexing function applied to that row's
  \<open>(lat, lon, r)\<close> and to nothing else; aggregate tables and files are untouched. Running
  it again on the same input, with any engine that has the same indexing function, gives
  the same result.
\<close>

theorem assign_cells_pure:
  "assign_cells e (initial_db pts files0) =
     Inr \<lparr>boreholes =
            \<lparr>h3_cols = scales,
             rows = map (\<lambda>p. \<lparr>lon = lon p, lat = lat p,
                              h3_scale = (\<lambda>r. if r \<in> set scales
                                               then sql_latlng_to_cell e (lat p) (lon p) r
                                               else None)\<rparr>) pts\<rparr>,
          scale_tables = Map.empty, json_files = files0\<rparr>
   \<and> (h3_latlng_to_cell e' = h3_latlng_to_cell e \<longrightarrow>
        assign_cells e' (initial_db pts files0) = assign_cells e (initial_db pts files0))"
proof -
  have closed: "tagged_row e =
      (\<lambda>p. \<lparr>lon = lon p, lat = lat p,
             h3_scale = (\<lambda>r. if r \<in> set scales
                              then sql_latlng_to_cell e (lat p) (lon p) r else None)\<rparr>)"
    by (rule ext) (simp add: tagged_row_def)
  have sql: "sql_latlng_to_cell e' = sql_latlng_to_cell e"
    if "h3_latlng_to_cell e' = h3_latlng_to_cell e"
    using that by (intro ext) (simp add: sql_latlng_to_cell_def split: option.splits)
  have same: "tagged_row e' = tagged_row e" if "h3_latlng_to_cell e' = h3_latlng_to_cell e"
    by (intro ext) (simp add: tagged_row_def sql [OF that] cong: if_cong)
  have "assign_cells e (initial_db pts files0) =
      Inr \<lparr>boreholes = \<lparr>h3_cols = scales, rows = map (tagged_row e) pts\<rparr>,
           scale_tables = Map.empty, json_files = files0\<rparr>"
    by (simp add: assign_cells_closed tagged_db_def)
  moreover have "assign_cells e' (initial_db pts files0) = assign_cells e (initial_db pts files0)"
    if "h3_latlng_to_cell e' = h3_latlng_to_cell e"
    by (simp add: assign_cells_closed tagged_db_def same [OF that])
  ultimately show ?thesis
    by (simp only: closed) blast
qed

theorem assign_cells_pure_witness:
  "h3_latlng_to_cell (example_engine\<lparr>row_order := id\<rparr>) = h3_latlng_to_cell example_engine
   \<and> assign_cells (example_engine\<lparr>row_order := id\<rparr>) (initial_db example_points Map.empty) =
       assign_cells example_engine (initial_db example_points Map.empty)
   \<and> \<not> isl (assign_cells example_engine (initial_db example_points Map.empty))
   \<and> map (\<lambda>row. h3_scale row 14)
         (rows (boreholes (projr (assign_cells example_engine (initial_db example_points Map.empty))))) =
       [Some 1, Some 1, None, Some 1]"
  using assign_cells_pure [of example_engine example_points Map.empty "example_engine\<lparr>row_order := id\<rparr>"]
        example_cells_14
  by (simp add: assign_cells_closed tagged_db_def)

section \<open>Aggregation\<close>

text \<open>
  C1. Count conservation: for every resolution \<open>r\<close> from 0 to 15 the pipeline succeeds and
  the counts of the rows of the resolution-\<open>r\<close> aggregate, as exported, add up to the
  number of rows of the tagged table whose \<open>h3_scale_r\<close> is not \<^verbatim>\<open>NULL\<close>: no point is
  dropped and none is counted twice.
\<close>

theorem count_conservation:
  "r \<le> 15 \<Longrightarrow> reorders_only e \<Longrightarrow>
   \<exists>s arr. pipeline e pts files0 = Inr s \<and> json_files s r = Some arr
     \<and> sum_list (map count_col arr) =
         length (filter (\<lambda>row. h3_scale row r \<noteq> None) (rows (boreholes s)))"
  by (simp add: pipeline_closed json_files_exported_db sum_counts_group_by_cell
        count_non_null_map filter_map o_def h3_scale_tagged_row)

theorem count_conservation_witness:
  "(15::nat) \<le> 15 \<and> reorders_only example_engine
   \<and> (\<exists>s arr. pipeline example_engine example_points Map.empty = Inr s
         \<and> json_files s 15 = Some arr
         \<and> sum_list (map count_col arr) = 3
         \<and> length (filter (\<lambda>row. h3_scale row 15 \<noteq> None) (rows (boreholes s))) = 3)"
  using count_conservation [of 15 example_engine example_points Map.empty]
        reorders_only_example
  by (simp add: pipeline_closed example_file_15)

text \<open>
  C2, as stated, asks that every row of an aggregate have a count of at least 1. A single
  point without coordinates has a \<^verbatim>\<open>NULL\<close> cell at resolution 0; the aggregate then
  consists of one row, the \<^verbatim>\<open>NULL\<close> group, whose \<^verbatim>\<open>COUNT(h3_scale_0)\<close> is 0.
\<close>

theorem aggregate_rows_counterexample:
  "\<not> isl (pipeline example_engine [\<lparr>lon = None, lat = None\<rparr>] Map.empty)
   \<and> json_files (projr (pipeline example_engine [\<lparr>lon = None, lat = None\<rparr>] Map.empty)) 0 =
       Some [\<lparr>cell = None, wkt = None, count_col = 0\<rparr>]"
  by (simp add: pipeline_closed json_files_exported_db) (simp add: example_defs)

text \<open>
  C2, amended. For every resolution \<open>r\<close> the aggregate has its cell value unique per row and
  exactly one row for each distinct value of \<open>h3_scale_r\<close> among the points; a row whose
  cell is not \<^verbatim>\<open>NULL\<close> has as its count the number of points with that cell, which is
  at least 1, and the row of the \<^verbatim>\<open>NULL\<close> cell, if there is one, has count 0.
\<close>

theorem aggregate_rows:
  "r \<le> 15 \<Longrightarrow> reorders_only e \<Longrightarrow>
   \<exists>s arr. pipeline e pts files0 = Inr s \<and> json_files s r = Some arr
     \<and> distinct (map cell arr)
     \<and> set (map cell arr) = (\<lambda>row. h3_scale row r) ` set (rows (boreholes s))
     \<and> (\<forall>a\<in>set arr.
           count_col a = (if cell a = None then 0
                          else length (filter (\<lambda>row. h3_scale row r = cell a) (rows (boreholes s))))
           \<and> (cell a \<noteq> None \<longrightarrow> 1 \<le> count_col a))"
proof -
  assume r: "r \<le> 15" and e: "reorders_only e"
  let ?col = "map (cell_of e r) pts"
  let ?arr = "group_by_cell e ?col"
  let ?s = "exported_db e pts files0"
  have rows: "rows (boreholes ?s) = map (tagged_row e) pts"
    by simp
  have tagged: "map (\<lambda>row. h3_scale row r) (map (tagged_row e) pts) = ?col"
    by (simp add: o_def h3_scale_tagged_row [OF r])
  have filt: "length (filter (\<lambda>row. h3_scale row r = k) (map (tagged_row e) pts)) =
              length (filter (\<lambda>p. cell_of e r p = k) pts)" for k
    by (simp add: filter_map o_def h3_scale_tagged_row [OF r])
  have cells: "set (map cell ?arr) = (\<lambda>row. h3_scale row r) ` set (map (tagged_row e) pts)"
  proof -
    have "set (map cell ?arr) = set ?col"
      by (rule set_cells_group_by_cell [OF e])
    also have "\<dots> = set (map (\<lambda>row. h3_scale row r) (map (tagged_row e) pts))"
      by (simp only: tagged)
    also have "\<dots> = (\<lambda>row. h3_scale row r) ` set (map (tagged_row e) pts)"
      by (rule set_map)
    finally show ?thesis .
  qed
  have counts: "\<forall>a\<in>set ?arr.
      count_col a = (if cell a = None then 0
                     else length (filter (\<lambda>row. h3_scale row r = cell a) (map (tagged_row e) pts)))
      \<and> (cell a \<noteq> None \<longrightarrow> 1 \<le> count_col a)"
  proof
    fix a
    assume a: "a \<in> set ?arr"
    have "count_col a = (if cell a = None then 0
                         else length (filter (\<lambda>row. h3_scale row r = cell a) (map (tagged_row e) pts)))"
      by (simp only: filt group_row_in_table(2) [OF e a])
    moreover have "cell a \<noteq> None \<longrightarrow> 1 \<le> count_col a"
      using group_row_in_table(3) [OF e a] by (rule impI)
    ultimately show "count_col a = (if cell a = None then 0
                         else length (filter (\<lambda>row. h3_scale row r = cell a) (map (tagged_row e) pts)))
        \<and> (cell a \<noteq> None \<longrightarrow> 1 \<le> count_col a)"
      by (rule conjI)
  qed
  show ?thesis
  proof (intro exI conjI)
    show "pipeline e pts files0 = Inr ?s"
      by (rule pipeline_closed)
    show "json_files ?s r = Some ?arr"
      by (rule json_files_exported_db [OF r])
    show "distinct (map cell ?arr)"
      by (rule distinct_cells_group_by_cell [OF e])
    show "set (map cell ?arr) = (\<lambda>row. h3_scale row r) ` set (rows (boreholes ?s))"
      unfolding rows by (rule cells)
    show "\<forall>a\<in>set ?arr.
      count_col a = (if cell a = None then 0
                     else length (filter (\<lambda>row. h3_scale row r = cell a) (rows (boreholes ?s))))
      \<and> (cell a \<noteq> None \<longrightarrow> 1 \<le> count_col a)"
      unfolding rows by (rule counts)
  qed
qed

theorem aggregate_rows_witness:
  "(15::nat) \<le> 15 \<and> reorders_only example_engine
   \<and> (\<exists>s. pipeline example_engine example_points Map.empty = Inr s
         \<and> json_files s 15 =
             Some [\<lparr>cell = Some 2, wkt = Some ''POLYGON EMPTY'', count_col = 2\<rparr>,
                   \<lparr>cell = None, wkt = None, count_col = 0\<rparr>,
                   \<lparr>cell = Some 3, wkt = Some ''POLYGON EMPTY'', count_col = 1\<rparr>]
         \<and> map (\<lambda>row. h3_scale row 15) (rows (boreholes s)) = [Some 2, Some 3, None, Some 2])"
  using aggregate_rows [of 15 example_engine example_points Map.empty]
        reorders_only_example example_cells_15
  by (simp add: pipeline_closed example_file_15)

section \<open>Determinism\<close>

text \<open>
  C4. Two runs of the pipeline on the same points, with the same H3 functions, yield for
  every resolution the same set of \<open>(cell, wkt, count)\<close> triples, whatever the order in
  which the engine emits the groups in either run and whatever files were there before.
\<close>

theorem pipeline_deterministic:
  "r \<le> 15 \<Longrightarrow> reorders_only e \<Longrightarrow> reorders_only (e\<lparr>row_order := order'\<rparr>) \<Longrightarrow>
   \<exists>s s' arr arr'.
       pipeline e pts files0 = Inr s \<and> json_files s r = Some arr
     \<and> pipeline (e\<lparr>row_order := order'\<rparr>) pts files0' = Inr s' \<and> json_files s' r = Some arr'
     \<and> set arr = set arr' \<and> mset arr = mset arr'"
proof -
  assume r: "r \<le> 15" and e: "reorders_only e" and e': "reorders_only (e\<lparr>row_order := order'\<rparr>)"
  have col: "map (cell_of (e\<lparr>row_order := order'\<rparr>) r) pts = map (cell_of e r) pts"
    by (simp add: cell_of_def sql_latlng_to_cell_def split: option.splits)
  have row: "group_row (e\<lparr>row_order := order'\<rparr>) col = group_row e col" for col
    by (rule ext) (simp add: group_row_def sql_cell_to_boundary_wkt_def split: option.splits)
  have "mset (group_by_cell e (map (cell_of e r) pts)) =
        mset (group_by_cell (e\<lparr>row_order := order'\<rparr>) (map (cell_of (e\<lparr>row_order := order'\<rparr>) r) pts))"
    by (simp only: mset_group_by_cell [OF e] mset_group_by_cell [OF e'] col row)
  then show ?thesis
    using mset_eq_setD
    by (simp add: pipeline_closed json_files_exported_db [OF r]) blast
qed

theorem pipeline_deterministic_witness:
  "(15::nat) \<le> 15 \<and> reorders_only example_engine
   \<and> reorders_only (example_engine\<lparr>row_order := id\<rparr>)
   \<and> (\<exists>s s' arr arr'.
         pipeline example_engine example_points Map.empty = Inr s \<and> json_files s 15 = Some arr
       \<and> pipeline (example_engine\<lparr>row_order := id\<rparr>) example_points
            (Map.empty(15 \<mapsto> [])) = Inr s' \<and> json_files s' 15 = Some arr'
       \<and> set arr = set arr' \<and> arr \<noteq> arr')"
proof -
  have "json_files (exported_db (example_engine\<lparr>row_order := id\<rparr>) example_points (Map.empty(15 \<mapsto> []))) 15
      = Some [\<lparr>cell = Some 3, wkt = Some ''POLYGON EMPTY'', count_col = 1\<rparr>,
              \<lparr>cell = None, wkt = None, count_col = 0\<rparr>,
              \<lparr>cell = Some 2, wkt = Some ''POLYGON EMPTY'', count_col = 2\<rparr>]"
    by (simp add: json_files_exported_db) (simp add: example_defs)
  then show ?thesis
    using pipeline_deterministic [of 15 example_engine id example_points Map.empty "Map.empty(15 \<mapsto> [])"]
          reorders_only_example reorders_only_example_id
    by (simp add: pipeline_closed example_file_15)
qed

section \<open>Empty input\<close>

text \<open>
  C5. On an empty point relation the pipeline does not fail, and for every resolution from
  0 to 15 the exported file holds an empty array, whatever it held before.
\<close>

theorem empty_input:
  "r \<le> 15 \<Longrightarrow> reorders_only e \<Longrightarrow>
   \<exists>s. pipeline e [] files0 = Inr s \<and> json_files s r = Some []"
  by (simp add: pipeline_closed json_files_exported_db group_by_cell_Nil)

theorem empty_input_witness:
  "(7::nat) \<le> 15 \<and> reorders_only example_engine
   \<and> (\<exists>s. pipeline example_engine []
              (Map.empty(7 \<mapsto> [\<lparr>cell = Some 9, wkt = None, count_col = 4\<rparr>])) = Inr s
          \<and> json_files s 7 = Some [])"
  using empty_input [of 7 example_engine "Map.empty(7 \<mapsto> [\<lparr>cell = Some 9, wkt = None, count_col = 4\<rparr>])"]
        reorders_only_example
  by simp

section \<open>Growth of the number of cells\<close>




section \<open>Rows without a cell\<close>

text \<open>
  C9. If some row of the tagged table has a \<^verbatim>\<open>NULL\<close> in \<open>h3_scale_r\<close>, the
  resolution-\<open>r\<close> aggregate, and the file exported from it, contains the row with
  \<^verbatim>\<open>NULL\<close> cell, \<^verbatim>\<open>NULL\<close> boundary and count 0: the \<^verbatim>\<open>NULL\<close>s form one group,
  \<^verbatim>\<open>COUNT(h3_scale_r)\<close> skips them, and the boundary function applied to
  \<^verbatim>\<open>NULL\<close> is \<^verbatim>\<open>NULL\<close>. It is the only row with a \<^verbatim>\<open>NULL\<close> cell.
\<close>

theorem null_cell_row:
  "r \<le> 15 \<Longrightarrow> reorders_only e \<Longrightarrow>
   \<exists>s arr. pipeline e pts files0 = Inr s \<and> json_files s r = Some arr
     \<and> ((\<exists>row\<in>set (rows (boreholes s)). h3_scale row r = None) \<longrightarrow>
          \<lparr>cell = None, wkt = None, count_col = 0\<rparr> \<in> set arr)
     \<and> (\<forall>a\<in>set arr. cell a = None \<longrightarrow> a = \<lparr>cell = None, wkt = None, count_col = 0\<rparr>)"
proof -
  assume r: "r \<le> 15" and e: "reorders_only e"
  let ?col = "map (cell_of e r) pts"
  let ?arr = "group_by_cell e ?col"
  let ?s = "exported_db e pts files0"
  have rows: "rows (boreholes ?s) = map (tagged_row e) pts"
    by simp
  have tagged: "map (\<lambda>row. h3_scale row r) (map (tagged_row e) pts) = ?col"
    by (simp add: o_def h3_scale_tagged_row [OF r])
  have "(\<exists>row\<in>set (map (tagged_row e) pts). h3_scale row r = None) \<longrightarrow>
        \<lparr>cell = None, wkt = None, count_col = 0\<rparr> \<in> set ?arr"
  proof
    assume "\<exists>row\<in>set (map (tagged_row e) pts). h3_scale row r = None"
    then obtain row where "row \<in> set (map (tagged_row e) pts)" and "h3_scale row r = None"
      by blast
    then have "None \<in> (\<lambda>row. h3_scale row r) ` set (map (tagged_row e) pts)"
      by (metis imageI)
    then have "None \<in> set ?col"
      by (simp only: tagged [symmetric] set_map)
    then show "\<lparr>cell = None, wkt = None, count_col = 0\<rparr> \<in> set ?arr"
      by (simp only: null_row_in_table(1) [OF e])
  qed
  moreover have "\<forall>a\<in>set ?arr. cell a = None \<longrightarrow> a = \<lparr>cell = None, wkt = None, count_col = 0\<rparr>"
    using null_row_in_table(2) [OF e] by blast
  ultimately show ?thesis
    using pipeline_closed [of e pts files0] json_files_exported_db [OF r, of e pts files0]
    unfolding rows [symmetric] by blast
qed

theorem null_cell_row_witness:
  "(15::nat) \<le> 15 \<and> reorders_only example_engine
   \<and> (\<exists>s arr. pipeline example_engine example_points Map.empty = Inr s
         \<and> json_files s 15 = Some arr
         \<and> map (\<lambda>row. h3_scale row 15) (rows (boreholes s)) = [Some 2, Some 3, None, Some 2]
         \<and> \<lparr>cell = None, wkt = None, count_col = 0\<rparr> \<in> set arr)"
  using null_cell_row [of 15 example_engine example_points Map.empty]
        reorders_only_example example_cells_15
  by (simp add: pipeline_closed example_file_15)

section \<open>Frame and sequencing of the aggregation loop\<close>

text \<open>
  C8. The aggregation loop runs its 48 statements without failing; \<open>n\<close> counts the
  statements done before the state looked at, so that \<open>n div 3\<close> is the resolution being
  processed and \<open>n mod 3\<close> tells whether the state is the one after its
  \<^verbatim>\<open>CREATE TABLE\<close> (0), its \<^verbatim>\<open>COPY\<close> (1) or its \<^verbatim>\<open>DROP TABLE\<close> (2). In
  every one of these states the table \<^verbatim>\<open>boreholes\<close> is the tagged relation, unchanged;
  after the \<^verbatim>\<open>CREATE\<close> and after the \<^verbatim>\<open>COPY\<close> of resolution \<open>j\<close> the only
  aggregate table in the database is that of \<open>j\<close>, after the \<^verbatim>\<open>COPY\<close> the file of
  \<open>j\<close> holds that table, and after the \<^verbatim>\<open>DROP\<close> no aggregate table is left: each
  aggregate is released after its export and before the next one is created, and no two
  exist at once. The last of these states is the result of the pipeline.
\<close>

theorem frame_and_sequencing:
  "n < 48 \<Longrightarrow>
   \<exists>s. assign_cells e (initial_db pts files0) = Inr s
     \<and> length (trace e (aggregation_stmts scales) s) = 48
     \<and> pipeline e pts files0 = Inr (last (trace e (aggregation_stmts scales) s))
     \<and> boreholes (trace e (aggregation_stmts scales) s ! n) = boreholes s
     \<and> dom (scale_tables (trace e (aggregation_stmts scales) s ! n)) =
         (if n mod 3 = 2 then {} else {n div 3})
     \<and> (n mod 3 = 1 \<longrightarrow>
          scale_tables (trace e (aggregation_stmts scales) s ! n) (n div 3) \<noteq> None
          \<and> json_files (trace e (aggregation_stmts scales) s ! n) (n div 3) =
              scale_tables (trace e (aggregation_stmts scales) s ! n) (n div 3))"
proof -
  assume n: "n < 48"
  let ?s = "tagged_db e pts files0"
  let ?tr = "trace e (aggregation_stmts scales) ?s"
  have cols: "set scales \<subseteq> set (h3_cols (boreholes ?s))" and none: "scale_tables ?s = Map.empty"
    by (simp_all add: tagged_db_def)
  have len16: "length scales = 16"
    by (simp add: scales_def)
  have n': "n < 3 * length scales"
    using n by (simp add: len16)
  have idx: "scales ! (n div 3) = n div 3"
    using n by (intro nth_scales) simp
  have len: "length ?tr = 48"
    using length_trace_aggregation [OF cols none, of e] by (simp add: len16)
  have run: "run e (aggregation_stmts scales) ?s = Inr (exported_db e pts files0)"
    using pipeline_closed [of e pts files0]
    by (simp add: pipeline_def assign_cells_closed aggregate_and_export_def)
  have "?tr \<noteq> []"
    using len by auto
  then have last: "last ?tr = exported_db e pts files0"
    using run_last_trace [OF run] by simp
  note nth = trace_aggregation_nth [OF cols none n', of e, unfolded idx]
  show ?thesis
  proof (intro exI conjI)
    show "assign_cells e (initial_db pts files0) = Inr ?s"
      by (rule assign_cells_closed)
    show "length ?tr = 48"
      by (rule len)
    show "pipeline e pts files0 = Inr (last ?tr)"
      by (simp only: last pipeline_closed)
    show "boreholes (?tr ! n) = boreholes ?s"
      using nth by blast
    show "dom (scale_tables (?tr ! n)) = (if n mod 3 = 2 then {} else {n div 3})"
      using nth by blast
    show "n mod 3 = 1 \<longrightarrow>
          scale_tables (?tr ! n) (n div 3) \<noteq> None
          \<and> json_files (?tr ! n) (n div 3) = scale_tables (?tr ! n) (n div 3)"
      using nth by simp
  qed
qed

theorem frame_and_sequencing_witness:
  "(4::nat) < 48
   \<and> (\<exists>s. assign_cells example_engine (initial_db example_points Map.empty) = Inr s
        \<and> length (trace example_engine (aggregation_stmts scales) s) = 48
        \<and> boreholes (trace example_engine (aggregation_stmts scales) s ! 4) = boreholes s
        \<and> dom (scale_tables (trace example_engine (aggregation_stmts scales) s ! 4)) = {1}
        \<and> json_files (trace example_engine (aggregation_stmts scales) s ! 4) 1 =
            scale_tables (trace example_engine (aggregation_stmts scales) s ! 4) 1)"
  using frame_and_sequencing [of 4 example_engine example_points Map.empty]
  by (simp add: assign_cells_closed)

end
